theory Spec2Isabelle
  imports Complex_Main
begin

section \<open>Python strings and the Unicode tables\<close>

text \<open>
  A Python \<open>str\<close> is a sequence of Unicode code points, so it is modelled as a list of
  natural numbers. \<open>lit\<close> embeds an ASCII literal of the source.
\<close>

type_synonym str = "nat list"

definition lit :: "string \<Rightarrow> str" where
  "lit s = map of_char s"

text \<open>
  \<open>str.upper\<close> and the regular expression class \<open>\w\<close> read the Unicode character
  database of the interpreter. Their behaviour on ASCII is fixed here; the behaviour on
  code points from 128 on is a parameter \<open>u\<close> of the model: \<open>uc_upper\<close> is the full
  upper-case mapping of one code point (which may be several code points), \<open>uc_alnum\<close>
  is \<open>str.isalnum\<close> on one code point.
\<close>

record ucd =
  uc_upper :: "nat \<Rightarrow> nat list"
  uc_alnum :: "nat \<Rightarrow> bool"

definition ucd_ascii :: ucd where
  "ucd_ascii = \<lparr>uc_upper = (\<lambda>c. [c]), uc_alnum = (\<lambda>c. False)\<rparr>"

definition upper_cp :: "ucd \<Rightarrow> nat \<Rightarrow> nat list" where
  "upper_cp u c =
     (if 97 \<le> c \<and> c \<le> 122 then [c - 32] else if c < 128 then [c] else uc_upper u c)"

definition str_upper :: "ucd \<Rightarrow> str \<Rightarrow> str" where
  "str_upper u s = concat (map (upper_cp u) s)"

text \<open>
  \<open>keyword.lower()\<close> is only ever applied to the keyword constants, which are ASCII
  letters; on ASCII \<open>str.lower\<close> maps A-Z to a-z and leaves the rest alone.
\<close>

definition ascii_lower :: "str \<Rightarrow> str" where
  "ascii_lower s = map (\<lambda>c. if 65 \<le> c \<and> c \<le> 90 then c + 32 else c) s"

definition isalnum :: "ucd \<Rightarrow> nat \<Rightarrow> bool" where
  "isalnum u c =
     (if c < 128 then (48 \<le> c \<and> c \<le> 57) \<or> (65 \<le> c \<and> c \<le> 90) \<or> (97 \<le> c \<and> c \<le> 122)
      else uc_alnum u c)"

text \<open>The class \<open>\w\<close> of \<open>re\<close> on a \<open>str\<close> pattern: alphanumeric, or the underscore (95).\<close>

definition is_word :: "ucd \<Rightarrow> nat \<Rightarrow> bool" where
  "is_word u c = (isalnum u c \<or> c = 95)"

section \<open>QueryValidator (infrastructure/database/query\_validator.py)\<close>

text \<open>
  \<open>\b\<close> at position \<open>p\<close> of \<open>s\<close>: exactly one of the characters before and after
  \<open>p\<close> is a word character, the outside of the string counting as a non-word character.
\<close>

definition word_boundary :: "ucd \<Rightarrow> str \<Rightarrow> nat \<Rightarrow> bool" where
  "word_boundary u s p =
     ((0 < p \<and> p \<le> length s \<and> is_word u (s ! (p - 1))) \<noteq> (p < length s \<and> is_word u (s ! p)))"

text \<open>The pattern \<open>\bKEYWORD\b\<close> matched with its first character at index \<open>i\<close>.\<close>

definition match_at :: "ucd \<Rightarrow> str \<Rightarrow> str \<Rightarrow> nat \<Rightarrow> bool" where
  "match_at u kw s i =
     (word_boundary u s i \<and> take (length kw) (drop i s) = kw \<and> word_boundary u s (i + length kw))"

text \<open>
  \<open>re.search(rf"\b{keyword}\b", s)\<close> as a truth value: some start index matches. The
  keywords consist of letters only, so the interpolated text is a literal.
\<close>

definition re_search :: "ucd \<Rightarrow> str \<Rightarrow> str \<Rightarrow> bool" where
  "re_search u kw s = list_ex (match_at u kw s) [0..<Suc (length s)]"

definition FORBIDDEN_KEYWORDS :: "str list" where
  "FORBIDDEN_KEYWORDS = map lit [''INSERT'', ''UPDATE'', ''DELETE'', ''DROP'', ''TRUNCATE'',
     ''ALTER'', ''CREATE'', ''GRANT'', ''REVOKE'']"

text \<open>The \<open>for keyword in self.FORBIDDEN_KEYWORDS\<close> loop of \<open>is_safe_query\<close>.\<close>

fun scan_safe :: "ucd \<Rightarrow> str \<Rightarrow> str list \<Rightarrow> bool" where
  "scan_safe u query_upper [] = True"
| "scan_safe u query_upper (keyword # rest) =
     (if re_search u keyword query_upper then False else scan_safe u query_upper rest)"

definition is_safe_query :: "ucd \<Rightarrow> str \<Rightarrow> bool" where
  "is_safe_query u query =
     (let query_upper = str_upper u query in scan_safe u query_upper FORBIDDEN_KEYWORDS)"

text \<open>The loop of \<open>get_forbidden_keyword\<close>; \<open>None\<close> is Python's \<open>None\<close>.\<close>

fun scan_keyword :: "ucd \<Rightarrow> str \<Rightarrow> str list \<Rightarrow> str option" where
  "scan_keyword u query_upper [] = None"
| "scan_keyword u query_upper (keyword # rest) =
     (if re_search u keyword query_upper then Some (ascii_lower keyword)
      else scan_keyword u query_upper rest)"

definition get_forbidden_keyword :: "ucd \<Rightarrow> str \<Rightarrow> str option" where
  "get_forbidden_keyword u query =
     (let query_upper = str_upper u query in scan_keyword u query_upper FORBIDDEN_KEYWORDS)"

subsection \<open>What the specification calls a whole-word match\<close>

text \<open>
  \<open>standalone u kw s\<close>: the text \<open>s\<close> splits as \<open>pre @ kw @ post\<close> where the character
  before the occurrence and the character after it are each absent or not a word
  character (neither alphanumeric nor the underscore).
\<close>

definition standalone :: "ucd \<Rightarrow> str \<Rightarrow> str \<Rightarrow> bool" where
  "standalone u kw s =
     (\<exists>pre post. s = pre @ kw @ post
        \<and> (pre = [] \<or> \<not> is_word u (last pre))
        \<and> (post = [] \<or> \<not> is_word u (hd post)))"

text \<open>
  The same with the specification's wording taken literally: the neighbours are absent
  or non-alphanumeric, so that an underscore delimits a word.
\<close>

definition alnum_delimited :: "ucd \<Rightarrow> str \<Rightarrow> str \<Rightarrow> bool" where
  "alnum_delimited u kw s =
     (\<exists>pre post. s = pre @ kw @ post
        \<and> (pre = [] \<or> \<not> isalnum u (last pre))
        \<and> (post = [] \<or> \<not> isalnum u (hd post)))"

text \<open>
  \<open>inside_identifier u kw s\<close>: wherever \<open>kw\<close> occurs in \<open>s\<close>, a word character stands
  directly before or directly after the occurrence, so that the occurrence is part of a
  longer identifier.
\<close>

definition inside_identifier :: "ucd \<Rightarrow> str \<Rightarrow> str \<Rightarrow> bool" where
  "inside_identifier u kw s =
     list_all (\<lambda>i. take (length kw) (drop i s) = kw \<longrightarrow>
                 (0 < i \<and> is_word u (s ! (i - 1)))
               \<or> (i + length kw < length s \<and> is_word u (s ! (i + length kw))))
       [0..<Suc (length s)]"

definition word_like :: "ucd \<Rightarrow> str \<Rightarrow> bool" where
  "word_like u kw = (kw \<noteq> [] \<and> is_word u (hd kw) \<and> is_word u (last kw))"

section \<open>Exceptions (infrastructure/exceptions/database\_exceptions.py)\<close>

text \<open>
  \<open>fault\<close> is what the layers below the repository raise: \<open>asyncpg.PostgresError\<close> with
  its message, the \<open>RuntimeError\<close> of an uninitialised pool, and any other exception.
  \<open>error\<close> is what the repository, the use cases and the entities raise; \<open>Fault\<close> is a
  fault that passes through uncaught.
\<close>

datatype fault = PostgresError str | RuntimeError str | OtherFault str

datatype error =
    TableNotFoundError str
  | QueryExecutionError str
  | ForbiddenQueryError str
  | ZeroDivisionError
  | Fault fault

section \<open>Entities (domain/entities)\<close>

record Pagination =
  page :: int
  page_size :: int
  total_count :: int

text \<open>
  Python's \<open>//\<close> on integers is floor division, as \<open>div\<close> on \<open>int\<close> is, and raises
  \<open>ZeroDivisionError\<close> for a zero divisor. The dataclass has no \<open>__post_init__\<close>:
  construction is plain record construction.
\<close>

definition total_pages :: "Pagination \<Rightarrow> error + int" where
  "total_pages p =
     (if page_size p = 0 then Inl ZeroDivisionError
      else Inr ((total_count p + page_size p - 1) div page_size p))"

definition offset :: "Pagination \<Rightarrow> int" where
  "offset p = (page p - 1) * page_size p"

record 'v QueryResult =
  columns :: "str list"
  rows :: "'v list list"
  row_count :: int

record ColumnInfo =
  column_name :: str
  data_type :: str
  is_nullable :: bool
  is_primary_key :: bool
  is_foreign_key :: bool
  column_comment :: "str option"
  ordinal_position :: int

record IndexInfo =
  index_name :: str
  index_columns :: "str list"
  is_unique :: bool
  is_primary :: bool

section \<open>The database behind the driver\<close>

text \<open>
  The system catalog tables that the repository's fixed queries read, with the columns
  they use. \<open>indkey\<close> lists the table's attribute numbers in the order of the index
  definition; \<open>conkey\<close> lists those of a constraint (SQL \<open>NULL\<close> as the empty list).
  \<open>obj_description\<close>, \<open>col_description\<close> and \<open>format_type\<close> are the server's functions of
  these names; \<open>None\<close> is SQL \<open>NULL\<close>.
\<close>

record pg_namespace_row =
  nsp_oid :: nat
  nspname :: str

record pg_class_row =
  oid :: nat
  relname :: str
  relnamespace :: nat

record pg_attribute_row =
  attrelid :: nat
  attname :: str
  attnum :: int
  atttypid :: nat
  atttypmod :: int
  attnotnull :: bool
  attisdropped :: bool

record pg_index_row =
  indexrelid :: nat
  indrelid :: nat
  indkey :: "int list"
  indisunique :: bool
  indisprimary :: bool

record pg_constraint_row =
  conrelid :: nat
  contype :: char
  conkey :: "int list"

record pg_catalog =
  pg_namespace :: "pg_namespace_row list"
  pg_class :: "pg_class_row list"
  pg_attribute :: "pg_attribute_row list"
  pg_index :: "pg_index_row list"
  pg_constraint :: "pg_constraint_row list"
  obj_description :: "nat \<Rightarrow> str option"
  col_description :: "nat \<Rightarrow> int \<Rightarrow> str option"
  format_type :: "nat \<Rightarrow> int \<Rightarrow> str"

text \<open>\<open>exists_query\<close>: is there a relation of this name in the schema \<open>public\<close>.\<close>

definition exists_query :: "pg_catalog \<Rightarrow> str \<Rightarrow> bool" where
  "exists_query cat name =
     ([(c, n). c \<leftarrow> pg_class cat, n \<leftarrow> pg_namespace cat, nsp_oid n = relnamespace c,
               nspname n = lit ''public'' \<and> relname c = name] \<noteq> [])"

text \<open>\<open>comment_query\<close> through \<open>fetchval\<close>: the first row's value, \<open>None\<close> without a row.\<close>

definition comment_query :: "pg_catalog \<Rightarrow> str \<Rightarrow> str option" where
  "comment_query cat name =
     (case [obj_description cat (oid c). c \<leftarrow> pg_class cat, n \<leftarrow> pg_namespace cat,
              nsp_oid n = relnamespace c, nspname n = lit ''public'' \<and> relname c = name] of
        [] \<Rightarrow> None
      | v # _ \<Rightarrow> v)"

definition in_constraint :: "pg_catalog \<Rightarrow> char \<Rightarrow> pg_attribute_row \<Rightarrow> bool" where
  "in_constraint cat ty a =
     list_ex (\<lambda>con. conrelid con = attrelid a \<and> contype con = ty \<and> attnum a \<in> set (conkey con))
       (pg_constraint cat)"

text \<open>\<open>columns_query\<close>: one row per live user column of the table, by \<open>attnum\<close>.\<close>

definition columns_query :: "pg_catalog \<Rightarrow> str \<Rightarrow> ColumnInfo list" where
  "columns_query cat name =
     map (\<lambda>a. \<lparr>column_name = attname a,
               data_type = format_type cat (atttypid a) (atttypmod a),
               is_nullable = (\<not> attnotnull a),
               is_primary_key = in_constraint cat CHR ''p'' a,
               is_foreign_key = in_constraint cat CHR ''f'' a,
               column_comment = col_description cat (attrelid a) (attnum a),
               ordinal_position = attnum a\<rparr>)
       (sort_key attnum
          [a. a \<leftarrow> pg_attribute cat, c \<leftarrow> pg_class cat, attrelid a = oid c,
              n \<leftarrow> pg_namespace cat, relnamespace c = nsp_oid n,
              nspname n = lit ''public'' \<and> relname c = name \<and> 0 < attnum a \<and> \<not> attisdropped a])"

text \<open>
  \<open>indexes_query\<close>. \<open>indexes_join\<close> is the \<open>FROM ... JOIN ... WHERE\<close> part, each joined row
  reduced to its \<open>GROUP BY\<close> key (index name, \<open>indisunique\<close>, \<open>indisprimary\<close>), the index
  row and the attribute row. \<open>GROUP BY\<close> yields one result row per key (SQL leaves their
  order open; the model lists them by appearance), and
  \<open>ARRAY_AGG(a.attname ORDER BY a.attnum)\<close> collects the attribute names of the group
  sorted by \<open>attnum\<close>.
\<close>

type_synonym index_key = "str \<times> bool \<times> bool"

definition indexes_join ::
  "pg_catalog \<Rightarrow> str \<Rightarrow> (index_key \<times> pg_index_row \<times> pg_attribute_row) list" where
  "indexes_join cat name =
     [((relname i, indisunique ix, indisprimary ix), ix, a).
        ix \<leftarrow> pg_index cat,
        t \<leftarrow> pg_class cat, oid t = indrelid ix,
        i \<leftarrow> pg_class cat, oid i = indexrelid ix,
        n \<leftarrow> pg_namespace cat, relnamespace t = nsp_oid n,
        a \<leftarrow> pg_attribute cat, attrelid a = oid t \<and> attnum a \<in> set (indkey ix),
        nspname n = lit ''public'' \<and> relname t = name]"

definition group_attributes ::
  "(index_key \<times> pg_index_row \<times> pg_attribute_row) list \<Rightarrow> index_key \<Rightarrow> pg_attribute_row list" where
  "group_attributes joined k = [a. (k', ix, a) \<leftarrow> joined, k' = k]"

definition indexes_query :: "pg_catalog \<Rightarrow> str \<Rightarrow> (str \<times> str list \<times> bool \<times> bool) list" where
  "indexes_query cat name =
     (let joined = indexes_join cat name in
      map (\<lambda>(iname, uniq, prim).
             (iname, map attname (sort_key attnum (group_attributes joined (iname, uniq, prim))),
              uniq, prim))
        (remdups (map fst joined)))"

section \<open>Settings and the connection pool (infrastructure/config, infrastructure/database)\<close>

record Settings =
  database_url :: str
  db_schema :: str

text \<open>
  A connection answers the repository's four fixed catalog statements from the catalog,
  unless the driver raises on that statement (\<open>statement_fault\<close>), and answers free query
  text through \<open>fetch\<close> with a list of records or a fault. An \<open>asyncpg.Record\<close> is the
  ordered list of its field names and values.
\<close>

datatype statement = ExistsQuery str | CommentQuery str | ColumnsQuery str | IndexesQuery str

record 'v connection =
  catalog :: pg_catalog
  statement_fault :: "statement \<Rightarrow> fault option"
  fetch :: "str \<Rightarrow> fault + (str \<times> 'v) list list"

text \<open>
  \<open>DatabaseConnectionPool\<close>: \<open>pool_handle\<close> is \<open>self._pool\<close>, \<open>None\<close> before \<open>connect\<close>;
  otherwise the outcome of \<open>self._pool.acquire()\<close>, a connection or a fault.
\<close>

record 'v DatabaseConnectionPool =
  pool_settings :: Settings
  pool_handle :: "(fault + 'v connection) option"

definition acquire :: "'v DatabaseConnectionPool \<Rightarrow> fault + 'v connection" where
  "acquire p =
     (case pool_handle p of
        None \<Rightarrow> Inl (RuntimeError (lit ''Connection pool not initialized''))
      | Some h \<Rightarrow> h)"

definition run_statement :: "'v connection \<Rightarrow> statement \<Rightarrow> (pg_catalog \<Rightarrow> 'a) \<Rightarrow> fault + 'a" where
  "run_statement conn st answer =
     (case statement_fault conn st of Some f \<Rightarrow> Inl f | None \<Rightarrow> Inr (answer (catalog conn)))"

section \<open>PostgreSQLRepository (infrastructure/database/repository.py)\<close>

text \<open>
  \<open>get_table_schema\<close> returns its result together with the statements it sent to the
  connection, in the order sent. No exception is caught in this method. Code point 39
  is the apostrophe of the message.
\<close>

definition get_table_schema ::
  "'v DatabaseConnectionPool \<Rightarrow> str
     \<Rightarrow> (error + ColumnInfo list \<times> IndexInfo list \<times> str option) \<times> statement list" where
  "get_table_schema p table_name =
     (case acquire p of
        Inl f \<Rightarrow> (Inl (Fault f), [])
      | Inr conn \<Rightarrow>
        (case run_statement conn (ExistsQuery table_name) (\<lambda>cat. exists_query cat table_name) of
           Inl f \<Rightarrow> (Inl (Fault f), [ExistsQuery table_name])
         | Inr exists \<Rightarrow>
           if \<not> exists
           then (Inl (TableNotFoundError (lit ''Table '' @ [39] @ table_name @ [39] @ lit '' not found'')),
                 [ExistsQuery table_name])
           else
           (case run_statement conn (CommentQuery table_name) (\<lambda>cat. comment_query cat table_name) of
              Inl f \<Rightarrow> (Inl (Fault f), [ExistsQuery table_name, CommentQuery table_name])
            | Inr table_comment \<Rightarrow>
              (case run_statement conn (ColumnsQuery table_name)
                      (\<lambda>cat. columns_query cat table_name) of
                 Inl f \<Rightarrow> (Inl (Fault f),
                           [ExistsQuery table_name, CommentQuery table_name,
                            ColumnsQuery table_name])
               | Inr column_rows \<Rightarrow>
                 (case run_statement conn (IndexesQuery table_name)
                         (\<lambda>cat. indexes_query cat table_name) of
                    Inl f \<Rightarrow> (Inl (Fault f),
                              [ExistsQuery table_name, CommentQuery table_name,
                               ColumnsQuery table_name, IndexesQuery table_name])
                  | Inr index_rows \<Rightarrow>
                    (Inr (column_rows,
                          map (\<lambda>(iname, cols, uniq, prim).
                                 \<lparr>index_name = iname, index_columns = cols,
                                  is_unique = uniq, is_primary = prim\<rparr>) index_rows,
                          table_comment),
                     [ExistsQuery table_name, CommentQuery table_name,
                      ColumnsQuery table_name, IndexesQuery table_name]))))))"

text \<open>
  \<open>except asyncpg.PostgresError as e: raise QueryExecutionError(...)\<close>: only a
  \<open>PostgresError\<close> is converted, any other fault passes through.
\<close>

definition reraise :: "fault \<Rightarrow> error" where
  "reraise f =
     (case f of
        PostgresError m \<Rightarrow> QueryExecutionError (lit ''Query execution failed: '' @ m)
      | _ \<Rightarrow> Fault f)"

definition execute_query :: "'v DatabaseConnectionPool \<Rightarrow> str \<Rightarrow> error + 'v QueryResult" where
  "execute_query p query =
     (case acquire p of
        Inl f \<Rightarrow> Inl (reraise f)
      | Inr conn \<Rightarrow>
        (case fetch conn query of
           Inl f \<Rightarrow> Inl (reraise f)
         | Inr [] \<Rightarrow> Inr \<lparr>columns = [], rows = [], row_count = 0\<rparr>
         | Inr (row0 # others) \<Rightarrow>
             Inr \<lparr>columns = map fst row0,
                  rows = map (map snd) (row0 # others),
                  row_count = int (length (row0 # others))\<rparr>))"

text \<open>
  All records of one result set of the driver carry the same fields: as many values
  each as the first record.
\<close>

definition same_fields :: "(str \<times> 'v) list list \<Rightarrow> bool" where
  "same_fields rs = list_all (\<lambda>r. length r = length (hd rs)) rs"

text \<open>The repository seen by a use case, with the query texts it was called with as state.\<close>

definition logged_execute_query ::
  "'v DatabaseConnectionPool \<Rightarrow> str \<Rightarrow> str list \<Rightarrow> (error + 'v QueryResult) \<times> str list" where
  "logged_execute_query p query seen = (execute_query p query, seen @ [query])"

section \<open>ExecuteQueryUseCase (use\_cases/execute\_query.py)\<close>

text \<open>
  The use case holds any implementation of the repository protocol: \<open>repo\<close> is its
  \<open>execute_query\<close>, a function of the query text and the repository's state \<open>'s\<close>.
  \<open>execute\<close> returns the result, the repository's state afterwards and the calls it
  made on its two collaborators, in order. An f-string renders \<open>None\<close> as the text None.
\<close>

datatype call = IsSafeQuery str | GetForbiddenKeyword str | RepoExecuteQuery str

definition format_keyword :: "str option \<Rightarrow> str" where
  "format_keyword k = (case k of None \<Rightarrow> lit ''None'' | Some w \<Rightarrow> w)"

definition execute ::
  "ucd \<Rightarrow> (str \<Rightarrow> 's \<Rightarrow> (error + 'r) \<times> 's) \<Rightarrow> str \<Rightarrow> 's \<Rightarrow> (error + 'r) \<times> 's \<times> call list" where
  "execute u repo query s =
     (if \<not> is_safe_query u query
      then (let forbidden_keyword = get_forbidden_keyword u query in
              (Inl (ForbiddenQueryError
                      (lit ''Query contains forbidden keyword: '' @ format_keyword forbidden_keyword)),
               s, [IsSafeQuery query, GetForbiddenKeyword query]))
      else (case repo query s of
              (r, s') \<Rightarrow> (r, s', [IsSafeQuery query, RepoExecuteQuery query])))"

section \<open>Specification-side notions used in the statements\<close>

text \<open>The columns of an index in the order of its definition, by name.\<close>

definition definition_order_columns :: "pg_catalog \<Rightarrow> pg_index_row \<Rightarrow> str list" where
  "definition_order_columns cat ix =
     concat (map (\<lambda>k. [attname a. a \<leftarrow> pg_attribute cat, attrelid a = indrelid ix \<and> attnum a = k])
               (indkey ix))"

text \<open>A relation of this name exists in the schema of this name.\<close>

definition relation_in_schema :: "pg_catalog \<Rightarrow> str \<Rightarrow> str \<Rightarrow> bool" where
  "relation_in_schema cat schema name =
     list_ex (\<lambda>c. relname c = name \<and>
                list_ex (\<lambda>n. nsp_oid n = relnamespace c \<and> nspname n = schema) (pg_namespace cat))
       (pg_class cat)"

text \<open>
  The fault raised inside the \<open>try\<close> block of \<open>execute_query\<close>: while the connection is
  acquired or, on a connection, by \<open>fetch\<close>.
\<close>

definition fault_raised :: "'v DatabaseConnectionPool \<Rightarrow> str \<Rightarrow> fault \<Rightarrow> bool" where
  "fault_raised p query f =
     (case acquire p of Inl g \<Rightarrow> g = f | Inr conn \<Rightarrow> fetch conn query = Inl f)"

text \<open>
  Constraints PostgreSQL keeps on its catalog: a relation name is unique within a
  namespace, a namespace name is unique, a relation is the index of at most one
  \<open>pg_index\<close> row, and an index lies in the namespace of its table.
\<close>

definition catalog_constraints :: "pg_catalog \<Rightarrow> bool" where
  "catalog_constraints cat =
     (distinct (map (\<lambda>c. (relname c, relnamespace c)) (pg_class cat))
    \<and> distinct (map nspname (pg_namespace cat))
    \<and> distinct (map indexrelid (pg_index cat))
    \<and> list_all (\<lambda>ix. list_all (\<lambda>i. list_all (\<lambda>t.
          oid i = indexrelid ix \<and> oid t = indrelid ix \<longrightarrow> relnamespace i = relnamespace t)
        (pg_class cat)) (pg_class cat)) (pg_index cat))"

section \<open>Example data\<close>

text \<open>
  A table \<open>orders\<close> with the columns \<open>id\<close> (attribute 1) and \<open>customer\<close> (attribute 2)
  and an index \<open>orders_idx\<close> defined on \<open>(customer, id)\<close>, in the schema named by the
  first argument.
\<close>

definition orders_catalog :: "str \<Rightarrow> pg_catalog" where
  "orders_catalog schema =
     \<lparr>pg_namespace = [\<lparr>nsp_oid = 2200, nspname = lit ''public''\<rparr>,
                      \<lparr>nsp_oid = 16384, nspname = lit ''sales''\<rparr>],
      pg_class = [\<lparr>oid = 1, relname = lit ''orders'',
                    relnamespace = (if schema = lit ''public'' then 2200 else 16384)\<rparr>,
                  \<lparr>oid = 2, relname = lit ''orders_idx'',
                    relnamespace = (if schema = lit ''public'' then 2200 else 16384)\<rparr>],
      pg_attribute = [\<lparr>attrelid = 1, attname = lit ''id'', attnum = 1, atttypid = 23,
                        atttypmod = -1, attnotnull = True, attisdropped = False\<rparr>,
                      \<lparr>attrelid = 1, attname = lit ''customer'', attnum = 2, atttypid = 25,
                        atttypmod = -1, attnotnull = False, attisdropped = False\<rparr>],
      pg_index = [\<lparr>indexrelid = 2, indrelid = 1, indkey = [2, 1],
                    indisunique = False, indisprimary = False\<rparr>],
      pg_constraint = [],
      obj_description = (\<lambda>_. None),
      col_description = (\<lambda>_ _. None),
      format_type = (\<lambda>t _. if t = 23 then lit ''integer'' else lit ''text'')\<rparr>"

text \<open>A connection that never faults and answers every free query with two one-field records.\<close>

definition orders_connection :: "str \<Rightarrow> int connection" where
  "orders_connection schema =
     \<lparr>catalog = orders_catalog schema,
      statement_fault = (\<lambda>_. None),
      fetch = (\<lambda>_. Inr [[(lit ''n'', 1)], [(lit ''n'', 2)]])\<rparr>"

text \<open>A connected pool whose settings name the schema \<open>configured\<close>, over the catalog above.\<close>

definition orders_pool :: "str \<Rightarrow> str \<Rightarrow> int DatabaseConnectionPool" where
  "orders_pool configured schema =
     \<lparr>pool_settings = \<lparr>database_url = lit ''postgresql://localhost/db'', db_schema = configured\<rparr>,
      pool_handle = Some (Inr (orders_connection schema))\<rparr>"

text \<open>A connected pool whose connection raises the given fault on every free query.\<close>

definition failing_pool :: "fault \<Rightarrow> int DatabaseConnectionPool" where
  "failing_pool f =
     \<lparr>pool_settings = \<lparr>database_url = lit ''postgresql://localhost/db'', db_schema = lit ''public''\<rparr>,
      pool_handle = Some (Inr \<lparr>catalog = orders_catalog (lit ''public''),
                                statement_fault = (\<lambda>_. None),
                                fetch = (\<lambda>_. Inl f)\<rparr>)\<rparr>"

text \<open>A pool on which \<open>connect\<close> was never called.\<close>

definition unconnected_pool :: "int DatabaseConnectionPool" where
  "unconnected_pool =
     \<lparr>pool_settings = \<lparr>database_url = lit ''postgresql://localhost/db'', db_schema = lit ''public''\<rparr>,
      pool_handle = None\<rparr>"

text \<open>
  The catalog above in the schema \<open>public\<close> with a primary key on \<open>id\<close>: a second
  index \<open>orders_pkey\<close> on \<open>(id)\<close>, unique and primary.
\<close>

definition keyed_orders_catalog :: pg_catalog where
  "keyed_orders_catalog =
     (orders_catalog (lit ''public''))
       \<lparr>pg_class := pg_class (orders_catalog (lit ''public''))
          @ [\<lparr>oid = 3, relname = lit ''orders_pkey'', relnamespace = 2200\<rparr>],
        pg_index := pg_index (orders_catalog (lit ''public''))
          @ [\<lparr>indexrelid = 3, indrelid = 1, indkey = [1],
              indisunique = True, indisprimary = True\<rparr>],
        pg_constraint := [\<lparr>conrelid = 1, contype = CHR ''p'', conkey = [1]\<rparr>]\<rparr>"

text \<open>A connected pool over that catalog, whose connection never faults.\<close>

definition keyed_orders_pool :: "int DatabaseConnectionPool" where
  "keyed_orders_pool =
     \<lparr>pool_settings = \<lparr>database_url = lit ''postgresql://localhost/db'', db_schema = lit ''public''\<rparr>,
      pool_handle = Some (Inr \<lparr>catalog = keyed_orders_catalog,
                                statement_fault = (\<lambda>_. None),
                                fetch = (\<lambda>_. Inr [])\<rparr>)\<rparr>"

section \<open>The regular expression against the whole-word reading\<close>

lemma word_boundary_start:
  assumes "kw \<noteq> []" "is_word u (hd kw)"
  shows "word_boundary u (pre @ kw @ post) (length pre) = (pre = [] \<or> \<not> is_word u (last pre))"
proof -
  have r: "(pre @ kw @ post) ! length pre = hd kw"
    using assms(1) by (simp add: nth_append hd_conv_nth)
  have l: "pre \<noteq> [] \<Longrightarrow> (pre @ kw @ post) ! (length pre - 1) = last pre"
    by (simp add: nth_append last_conv_nth)
  show ?thesis
    using assms l r by (cases "pre = []") (auto simp: word_boundary_def)
qed

lemma word_boundary_end:
  assumes "kw \<noteq> []" "is_word u (last kw)"
  shows "word_boundary u (pre @ kw @ post) (length pre + length kw)
           = (post = [] \<or> \<not> is_word u (hd post))"
proof -
  have "length pre + length kw - 1 = length pre + (length kw - 1)"
    using assms(1) by (cases kw) simp_all
  then have l: "(pre @ kw @ post) ! (length pre + length kw - 1) = last kw"
    using assms(1) by (simp add: nth_append last_conv_nth)
  have r: "post \<noteq> [] \<Longrightarrow> (pre @ kw @ post) ! (length pre + length kw) = hd post"
    by (simp add: nth_append hd_conv_nth)
  show ?thesis
    using assms l r by (cases "post = []") (auto simp: word_boundary_def)
qed

lemma occurrence_split:
  assumes "take (length kw) (drop i s) = kw" and "i \<le> length s"
  shows "s = take i s @ kw @ drop (i + length kw) s"
proof -
  have "s = take i s @ take (length kw) (drop i s) @ drop (length kw) (drop i s)"
    by (simp only: append_take_drop_id)
  with assms(1) show ?thesis by (simp add: add.commute)
qed

lemma match_at_in_range:
  assumes "match_at u kw s i"
  shows "i \<le> length s"
proof (rule ccontr)
  assume "\<not> i \<le> length s"
  then have "\<not> word_boundary u s i" by (simp add: word_boundary_def)
  with assms show False by (simp add: match_at_def)
qed

lemma re_search_iff: "re_search u kw s = (\<exists>i\<le>length s. match_at u kw s i)"
  by (simp only: re_search_def list_ex_iff set_upt Bex_def atLeastLessThan_iff less_Suc_eq_le) blast

lemma match_at_split:
  assumes "word_like u kw" and "i \<le> length s" and "take (length kw) (drop i s) = kw"
  shows "match_at u kw s i =
           ((take i s = [] \<or> \<not> is_word u (last (take i s)))
          \<and> (drop (i + length kw) s = [] \<or> \<not> is_word u (hd (drop (i + length kw) s))))"
proof -
  define pre where "pre = take i s"
  define post where "post = drop (i + length kw) s"
  have s: "s = pre @ kw @ post"
    using occurrence_split[OF assms(3) assms(2)] by (simp add: pre_def post_def)
  have lp: "length pre = i" using assms(2) by (simp add: pre_def)
  have "match_at u kw s i
          = (word_boundary u (pre @ kw @ post) (length pre)
           \<and> word_boundary u (pre @ kw @ post) (length pre + length kw))"
    using assms(3) s lp by (simp add: match_at_def)
  also have "\<dots> = ((pre = [] \<or> \<not> is_word u (last pre)) \<and> (post = [] \<or> \<not> is_word u (hd post)))"
    using assms(1) by (simp add: word_boundary_start word_boundary_end word_like_def)
  finally show ?thesis by (simp add: pre_def post_def)
qed

lemma re_search_iff_standalone:
  assumes "word_like u kw"
  shows "re_search u kw s = standalone u kw s"
proof
  assume "re_search u kw s"
  then obtain i where i: "i \<le> length s" "match_at u kw s i"
    unfolding re_search_iff by blast
  from i(2) have t: "take (length kw) (drop i s) = kw" by (simp add: match_at_def)
  from i(2) match_at_split[OF assms i(1) t] occurrence_split[OF t i(1)]
  show "standalone u kw s" unfolding standalone_def by blast
next
  assume "standalone u kw s"
  then obtain pre post where s: "s = pre @ kw @ post"
    and l: "pre = [] \<or> \<not> is_word u (last pre)" and r: "post = [] \<or> \<not> is_word u (hd post)"
    unfolding standalone_def by blast
  have "match_at u kw s (length pre)"
    using assms l r unfolding match_at_def s
    by (simp add: word_boundary_start word_boundary_end word_like_def)
  moreover have "length pre \<le> length s" by (simp add: s)
  ultimately show "re_search u kw s"
    unfolding re_search_iff by blast
qed

lemma inside_identifier_no_match:
  assumes "word_like u kw" and "inside_identifier u kw s"
  shows "\<not> re_search u kw s"
proof
  assume "re_search u kw s"
  then obtain i where i: "i \<le> length s" "match_at u kw s i"
    unfolding re_search_iff by blast
  from i(2) have t: "take (length kw) (drop i s) = kw" by (simp add: match_at_def)
  from i(2) match_at_split[OF assms(1) i(1) t]
  have l: "take i s = [] \<or> \<not> is_word u (last (take i s))"
    and r: "drop (i + length kw) s = [] \<or> \<not> is_word u (hd (drop (i + length kw) s))"
    by simp_all
  from assms(2) i(1) t
  have "(0 < i \<and> is_word u (s ! (i - 1)))
      \<or> (i + length kw < length s \<and> is_word u (s ! (i + length kw)))"
    by (simp add: inside_identifier_def list_all_iff less_Suc_eq_le del: upt_Suc)
  then show False
  proof
    assume a: "0 < i \<and> is_word u (s ! (i - 1))"
    with i(1) have ne: "take i s \<noteq> []" by auto
    have "length (take i s) = i" using i(1) by simp
    with ne a have "last (take i s) = s ! (i - 1)"
      by (simp add: last_conv_nth)
    with ne show False using l a by simp
  next
    assume a: "i + length kw < length s \<and> is_word u (s ! (i + length kw))"
    then have "drop (i + length kw) s \<noteq> []" by simp
    moreover have "hd (drop (i + length kw) s) = s ! (i + length kw)"
      using a by (simp add: hd_drop_conv_nth)
    ultimately show False using r a by simp
  qed
qed

lemma forbidden_word_like: "kw \<in> set FORBIDDEN_KEYWORDS \<Longrightarrow> word_like u kw"
  by (auto simp: FORBIDDEN_KEYWORDS_def lit_def word_like_def is_word_def isalnum_def)

lemma scan_safe_iff: "scan_safe u s ks = (\<forall>k\<in>set ks. \<not> re_search u k s)"
  by (induction ks) auto

lemma scan_keyword_None_iff: "(scan_keyword u s ks = None) = (\<forall>k\<in>set ks. \<not> re_search u k s)"
  by (induction ks) auto

lemma scan_keyword_first:
  assumes "\<exists>k\<in>set ks. re_search u k s"
  shows "\<exists>i<length ks. scan_keyword u s ks = Some (ascii_lower (ks ! i))
           \<and> re_search u (ks ! i) s \<and> (\<forall>j<i. \<not> re_search u (ks ! j) s)"
  using assms
proof (induction ks)
  case Nil
  then show ?case by simp
next
  case (Cons k ks)
  show ?case
  proof (cases "re_search u k s")
    case True
    then have "scan_keyword u s (k # ks) = Some (ascii_lower ((k # ks) ! 0))
        \<and> re_search u ((k # ks) ! 0) s \<and> (\<forall>j<0. \<not> re_search u ((k # ks) ! j) s)"
      by simp
    then show ?thesis by blast
  next
    case False
    with Cons.prems have "\<exists>k\<in>set ks. re_search u k s" by auto
    from Cons.IH[OF this] obtain i where i: "i < length ks"
      "scan_keyword u s ks = Some (ascii_lower (ks ! i))" "re_search u (ks ! i) s"
      "\<forall>j<i. \<not> re_search u (ks ! j) s" by blast
    have "\<forall>j<Suc i. \<not> re_search u ((k # ks) ! j) s"
    proof (intro allI impI)
      fix j assume "j < Suc i"
      then show "\<not> re_search u ((k # ks) ! j) s"
        using False i(4) by (cases j) auto
    qed
    with False i have "Suc i < length (k # ks)
        \<and> scan_keyword u s (k # ks) = Some (ascii_lower ((k # ks) ! Suc i))
        \<and> re_search u ((k # ks) ! Suc i) s \<and> (\<forall>j<Suc i. \<not> re_search u ((k # ks) ! j) s)"
      by simp
    then show ?thesis by blast
  qed
qed

lemma is_safe_query_iff:
  "is_safe_query u q = (\<forall>k\<in>set FORBIDDEN_KEYWORDS. \<not> standalone u k (str_upper u q))"
  by (simp add: is_safe_query_def scan_safe_iff re_search_iff_standalone forbidden_word_like)

lemma get_forbidden_keyword_first:
  assumes "\<not> is_safe_query u q"
  shows "\<exists>i<length FORBIDDEN_KEYWORDS.
           get_forbidden_keyword u q = Some (ascii_lower (FORBIDDEN_KEYWORDS ! i))
         \<and> standalone u (FORBIDDEN_KEYWORDS ! i) (str_upper u q)
         \<and> (\<forall>j<i. \<not> standalone u (FORBIDDEN_KEYWORDS ! j) (str_upper u q))"
proof -
  from assms have "\<exists>k\<in>set FORBIDDEN_KEYWORDS. re_search u k (str_upper u q)"
    by (simp add: is_safe_query_def scan_safe_iff)
  from scan_keyword_first[OF this] obtain i where i: "i < length FORBIDDEN_KEYWORDS"
    "scan_keyword u (str_upper u q) FORBIDDEN_KEYWORDS = Some (ascii_lower (FORBIDDEN_KEYWORDS ! i))"
    "re_search u (FORBIDDEN_KEYWORDS ! i) (str_upper u q)"
    "\<forall>j<i. \<not> re_search u (FORBIDDEN_KEYWORDS ! j) (str_upper u q)" by blast
  have wl: "\<And>j. j < length FORBIDDEN_KEYWORDS \<Longrightarrow> word_like u (FORBIDDEN_KEYWORDS ! j)"
    by (simp add: forbidden_word_like)
  have "standalone u (FORBIDDEN_KEYWORDS ! i) (str_upper u q)"
    using i(1,3) wl by (simp add: re_search_iff_standalone)
  moreover have "\<forall>j<i. \<not> standalone u (FORBIDDEN_KEYWORDS ! j) (str_upper u q)"
    using i(1,4) wl by (simp add: re_search_iff_standalone)
  ultimately show ?thesis
    using i(1,2) unfolding get_forbidden_keyword_def Let_def by blast
qed

section \<open>Evaluation rules for concrete inputs\<close>

lemmas ev = lit_def str_upper_def upper_cp_def FORBIDDEN_KEYWORDS_def re_search_def match_at_def
  word_boundary_def is_word_def isalnum_def ascii_lower_def is_safe_query_def get_forbidden_keyword_def

section \<open>The validator\<close>




text \<open>
  C3, as stated, fails: in \<open>select drop_x from t\<close> the word DROP has a space before
  it and an underscore after it, both non-alphanumeric, yet the validator accepts the
  query, because the underscore is a word character for \<open>\\b\<close>.
\<close>

theorem underscore_delimiter_counterexample:
  "alnum_delimited ucd_ascii (lit ''DROP'') (str_upper ucd_ascii (lit ''select drop_x from t''))
   \<and> is_safe_query ucd_ascii (lit ''select drop_x from t'')"
proof
  have "str_upper ucd_ascii (lit ''select drop_x from t'')
          = lit ''SELECT '' @ lit ''DROP'' @ lit ''_X FROM T''"
    by (simp add: ev)
  moreover have "\<not> isalnum ucd_ascii (last (lit ''SELECT ''))"
    and "\<not> isalnum ucd_ascii (hd (lit ''_X FROM T''))"
    by (simp_all add: ev)
  ultimately show "alnum_delimited ucd_ascii (lit ''DROP'')
      (str_upper ucd_ascii (lit ''select drop_x from t''))"
    unfolding alnum_delimited_def by blast
  show "is_safe_query ucd_ascii (lit ''select drop_x from t'')"
    by (simp add: ev)
qed

text \<open>
  C3, amended. For every forbidden keyword the validator's test succeeds exactly when the
  upper-cased query contains an occurrence of the keyword whose neighbours on both sides
  are each the string boundary or a character that is neither alphanumeric nor the
  underscore; the query is safe exactly when no keyword has such an occurrence; hence a
  query in which every occurrence of a forbidden word lies inside a longer identifier is
  safe.
\<close>

theorem whole_word_flagging:
  "(\<forall>k\<in>set FORBIDDEN_KEYWORDS. re_search u k (str_upper u q) = standalone u k (str_upper u q))
   \<and> (is_safe_query u q = (\<forall>k\<in>set FORBIDDEN_KEYWORDS. \<not> standalone u k (str_upper u q)))
   \<and> ((\<forall>k\<in>set FORBIDDEN_KEYWORDS. inside_identifier u k (str_upper u q)) \<longrightarrow> is_safe_query u q)"
proof (intro conjI)
  show "\<forall>k\<in>set FORBIDDEN_KEYWORDS. re_search u k (str_upper u q) = standalone u k (str_upper u q)"
    by (simp add: re_search_iff_standalone forbidden_word_like)
  show "is_safe_query u q = (\<forall>k\<in>set FORBIDDEN_KEYWORDS. \<not> standalone u k (str_upper u q))"
    by (rule is_safe_query_iff)
  show "(\<forall>k\<in>set FORBIDDEN_KEYWORDS. inside_identifier u k (str_upper u q)) \<longrightarrow> is_safe_query u q"
    using inside_identifier_no_match[OF forbidden_word_like]
    by (simp add: is_safe_query_def scan_safe_iff)
qed

theorem whole_word_flagging_witness:
  "list_all (\<lambda>k. inside_identifier ucd_ascii k (str_upper ucd_ascii (lit ''select updated_at from t'')))
     FORBIDDEN_KEYWORDS
   \<and> is_safe_query ucd_ascii (lit ''select updated_at from t'')
   \<and> lit ''UPDATE'' \<in> set FORBIDDEN_KEYWORDS
   \<and> \<not> standalone ucd_ascii (lit ''UPDATE'') (str_upper ucd_ascii (lit ''select updated_at from t''))"
proof -
  let ?q = "lit ''select updated_at from t''"
  have h: "\<forall>k\<in>set FORBIDDEN_KEYWORDS. inside_identifier ucd_ascii k (str_upper ucd_ascii ?q)"
    by (simp add: ev inside_identifier_def)
  have m: "lit ''UPDATE'' \<in> set FORBIDDEN_KEYWORDS"
    by (simp add: FORBIDDEN_KEYWORDS_def)
  from whole_word_flagging[of ucd_ascii ?q] h have s: "is_safe_query ucd_ascii ?q"
    by blast
  with whole_word_flagging[of ucd_ascii ?q] m
  have n: "\<not> standalone ucd_ascii (lit ''UPDATE'') (str_upper ucd_ascii ?q)"
    by blast
  from h have l: "list_all (\<lambda>k. inside_identifier ucd_ascii k (str_upper ucd_ascii ?q))
                    FORBIDDEN_KEYWORDS"
    by (simp only: list_all_iff)
  show ?thesis
    by (intro conjI) (rule l s m n)+
qed

section \<open>The use case\<close>

lemma get_forbidden_keyword_None_iff:
  "(get_forbidden_keyword u q = None) = is_safe_query u q"
  by (simp add: get_forbidden_keyword_def is_safe_query_def scan_keyword_None_iff scan_safe_iff)

lemma execute_unsafe:
  assumes "\<not> is_safe_query u q" and "get_forbidden_keyword u q = Some w"
  shows "execute u repo q s =
           (Inl (ForbiddenQueryError (lit ''Query contains forbidden keyword: '' @ w)), s,
            [IsSafeQuery q, GetForbiddenKeyword q])"
  using assms by (simp add: execute_def format_keyword_def)

lemma execute_safe:
  assumes "is_safe_query u q"
  shows "execute u repo q s = (fst (repo q s), snd (repo q s), [IsSafeQuery q, RepoExecuteQuery q])"
  using assms by (simp add: execute_def split: prod.splits)

text \<open>
  C9. \<open>is_safe_query\<close> is true exactly when \<open>get_forbidden_keyword\<close> returns \<open>None\<close>;
  hence whenever the use case rejects a query, \<open>get_forbidden_keyword\<close> yields one of the
  nine keywords, lower-cased, and the message of the \<open>ForbiddenQueryError\<close> ends in that
  keyword (never in the text None).
\<close>

theorem safe_iff_no_forbidden_keyword:
  "(is_safe_query u q = (get_forbidden_keyword u q = None))
   \<and> (\<not> is_safe_query u q \<longrightarrow>
        (\<exists>k\<in>set FORBIDDEN_KEYWORDS.
           get_forbidden_keyword u q = Some (ascii_lower k)
         \<and> fst (execute u repo q s)
             = Inl (ForbiddenQueryError (lit ''Query contains forbidden keyword: '' @ ascii_lower k))))"
proof (intro conjI impI)
  show "is_safe_query u q = (get_forbidden_keyword u q = None)"
    by (simp only: get_forbidden_keyword_None_iff)
next
  assume unsafe: "\<not> is_safe_query u q"
  from get_forbidden_keyword_first[OF unsafe] obtain i where i: "i < length FORBIDDEN_KEYWORDS"
    "get_forbidden_keyword u q = Some (ascii_lower (FORBIDDEN_KEYWORDS ! i))" by blast
  from i(1) have mem: "FORBIDDEN_KEYWORDS ! i \<in> set FORBIDDEN_KEYWORDS" by (rule nth_mem)
  have "fst (execute u repo q s)
      = Inl (ForbiddenQueryError (lit ''Query contains forbidden keyword: ''
               @ ascii_lower (FORBIDDEN_KEYWORDS ! i)))"
    by (simp only: execute_unsafe[OF unsafe i(2)] fst_conv)
  with i(2) show "\<exists>k\<in>set FORBIDDEN_KEYWORDS.
           get_forbidden_keyword u q = Some (ascii_lower k)
         \<and> fst (execute u repo q s)
             = Inl (ForbiddenQueryError (lit ''Query contains forbidden keyword: '' @ ascii_lower k))"
    by (intro bexI[OF _ mem] conjI)
qed

theorem safe_iff_no_forbidden_keyword_witness:
  "\<not> is_safe_query ucd_ascii (lit ''delete from users'')
   \<and> get_forbidden_keyword ucd_ascii (lit ''delete from users'') = Some (lit ''delete'')
   \<and> (\<exists>k\<in>set FORBIDDEN_KEYWORDS.
         fst (execute ucd_ascii (logged_execute_query (orders_pool (lit ''public'') (lit ''public'')))
                (lit ''delete from users'') [])
           = Inl (ForbiddenQueryError (lit ''Query contains forbidden keyword: '' @ ascii_lower k)))
   \<and> is_safe_query ucd_ascii (lit ''select 1'')
   \<and> get_forbidden_keyword ucd_ascii (lit ''select 1'') = None"
proof -
  let ?repo = "logged_execute_query (orders_pool (lit ''public'') (lit ''public''))"
  have a: "\<not> is_safe_query ucd_ascii (lit ''delete from users'')"
    by (simp add: ev)
  have b: "get_forbidden_keyword ucd_ascii (lit ''delete from users'') = Some (lit ''delete'')"
    by (simp add: ev)
  have c: "\<exists>k\<in>set FORBIDDEN_KEYWORDS.
         fst (execute ucd_ascii ?repo (lit ''delete from users'') [])
           = Inl (ForbiddenQueryError (lit ''Query contains forbidden keyword: '' @ ascii_lower k))"
    using safe_iff_no_forbidden_keyword[of ucd_ascii "lit ''delete from users''" ?repo "[]",
            THEN conjunct2, THEN mp, OF a]
    by (elim bexE conjE) (rule bexI)
  have d: "is_safe_query ucd_ascii (lit ''select 1'')"
    by (simp add: ev)
  have e: "get_forbidden_keyword ucd_ascii (lit ''select 1'') = None"
    using safe_iff_no_forbidden_keyword[of ucd_ascii "lit ''select 1''" ?repo "[]", THEN conjunct1] d
    by (simp only: simp_thms)
  show ?thesis
    by (intro conjI) (rule a b c d e)+
qed

text \<open>
  C1. The use case consults the validator first. For an unsafe query it returns
  \<open>ForbiddenQueryError\<close> whose message carries the first forbidden keyword in list order,
  the repository is not called (its state is unchanged, the result does not depend on
  it, and its \<open>execute_query\<close> is absent from the calls made); for a safe query the
  result and the state are exactly those of the repository's \<open>execute_query\<close>, value or
  error, called after the validator.
\<close>

theorem validate_before_execute:
  "(\<not> is_safe_query u q \<longrightarrow>
      (\<exists>i<length FORBIDDEN_KEYWORDS.
         execute u repo q s
           = (Inl (ForbiddenQueryError (lit ''Query contains forbidden keyword: ''
                     @ ascii_lower (FORBIDDEN_KEYWORDS ! i))),
              s, [IsSafeQuery q, GetForbiddenKeyword q])
       \<and> standalone u (FORBIDDEN_KEYWORDS ! i) (str_upper u q)
       \<and> (\<forall>j<i. \<not> standalone u (FORBIDDEN_KEYWORDS ! j) (str_upper u q))))
   \<and> (is_safe_query u q \<longrightarrow>
        execute u repo q s = (fst (repo q s), snd (repo q s), [IsSafeQuery q, RepoExecuteQuery q]))"
proof (intro conjI impI)
  assume unsafe: "\<not> is_safe_query u q"
  from get_forbidden_keyword_first[OF unsafe] obtain i where i: "i < length FORBIDDEN_KEYWORDS"
    "get_forbidden_keyword u q = Some (ascii_lower (FORBIDDEN_KEYWORDS ! i))"
    "standalone u (FORBIDDEN_KEYWORDS ! i) (str_upper u q)"
    "\<forall>j<i. \<not> standalone u (FORBIDDEN_KEYWORDS ! j) (str_upper u q)" by blast
  show "\<exists>i<length FORBIDDEN_KEYWORDS.
         execute u repo q s
           = (Inl (ForbiddenQueryError (lit ''Query contains forbidden keyword: ''
                     @ ascii_lower (FORBIDDEN_KEYWORDS ! i))),
              s, [IsSafeQuery q, GetForbiddenKeyword q])
       \<and> standalone u (FORBIDDEN_KEYWORDS ! i) (str_upper u q)
       \<and> (\<forall>j<i. \<not> standalone u (FORBIDDEN_KEYWORDS ! j) (str_upper u q))"
  proof (intro exI[of _ i] conjI)
    show "i < length FORBIDDEN_KEYWORDS" by (fact i(1))
    show "execute u repo q s
           = (Inl (ForbiddenQueryError (lit ''Query contains forbidden keyword: ''
                     @ ascii_lower (FORBIDDEN_KEYWORDS ! i))),
              s, [IsSafeQuery q, GetForbiddenKeyword q])"
      by (rule execute_unsafe[OF unsafe i(2)])
    show "standalone u (FORBIDDEN_KEYWORDS ! i) (str_upper u q)" by (fact i(3))
    show "\<forall>j<i. \<not> standalone u (FORBIDDEN_KEYWORDS ! j) (str_upper u q)" by (fact i(4))
  qed
next
  assume "is_safe_query u q"
  then show "execute u repo q s
      = (fst (repo q s), snd (repo q s), [IsSafeQuery q, RepoExecuteQuery q])"
    by (rule execute_safe)
qed

theorem validate_before_execute_witness:
  "\<not> is_safe_query ucd_ascii (lit ''DROP TABLE users'')
   \<and> fst (execute ucd_ascii (logged_execute_query (orders_pool (lit ''public'') (lit ''public'')))
          (lit ''DROP TABLE users'') [])
       = Inl (ForbiddenQueryError (lit ''Query contains forbidden keyword: drop''))
   \<and> snd (execute ucd_ascii (logged_execute_query (orders_pool (lit ''public'') (lit ''public'')))
          (lit ''DROP TABLE users'') [])
       = ([], [IsSafeQuery (lit ''DROP TABLE users''), GetForbiddenKeyword (lit ''DROP TABLE users'')])
   \<and> is_safe_query ucd_ascii (lit ''SELECT 1'')
   \<and> execute ucd_ascii (logged_execute_query (orders_pool (lit ''public'') (lit ''public'')))
        (lit ''SELECT 1'') []
       = (execute_query (orders_pool (lit ''public'') (lit ''public'')) (lit ''SELECT 1''),
          [lit ''SELECT 1''],
          [IsSafeQuery (lit ''SELECT 1''), RepoExecuteQuery (lit ''SELECT 1'')])"
proof -
  let ?repo = "logged_execute_query (orders_pool (lit ''public'') (lit ''public''))"
  have a: "\<not> is_safe_query ucd_ascii (lit ''DROP TABLE users'')"
    by (simp add: ev)
  have k: "get_forbidden_keyword ucd_ascii (lit ''DROP TABLE users'') = Some (lit ''drop'')"
    by (simp add: ev)
  have "lit ''Query contains forbidden keyword: '' @ lit ''drop''
          = lit ''Query contains forbidden keyword: drop''"
    by (simp add: lit_def)
  then have b: "fst (execute ucd_ascii ?repo (lit ''DROP TABLE users'') [])
      = Inl (ForbiddenQueryError (lit ''Query contains forbidden keyword: drop''))"
    by (simp only: execute_unsafe[OF a k] fst_conv)
  from validate_before_execute[of ucd_ascii "lit ''DROP TABLE users''" ?repo "[]",
      THEN conjunct1, THEN mp, OF a]
  obtain i where "execute ucd_ascii ?repo (lit ''DROP TABLE users'') []
           = (Inl (ForbiddenQueryError (lit ''Query contains forbidden keyword: ''
                     @ ascii_lower (FORBIDDEN_KEYWORDS ! i))),
              [], [IsSafeQuery (lit ''DROP TABLE users''), GetForbiddenKeyword (lit ''DROP TABLE users'')])"
    by (elim exE conjE)
  then have b': "snd (execute ucd_ascii ?repo (lit ''DROP TABLE users'') [])
       = ([], [IsSafeQuery (lit ''DROP TABLE users''), GetForbiddenKeyword (lit ''DROP TABLE users'')])"
    by (simp only: snd_conv)
  have c: "is_safe_query ucd_ascii (lit ''SELECT 1'')"
    by (simp add: ev)
  have r: "?repo (lit ''SELECT 1'') []
      = (execute_query (orders_pool (lit ''public'') (lit ''public'')) (lit ''SELECT 1''),
         [lit ''SELECT 1''])"
    by (simp only: logged_execute_query_def append_Nil)
  have d: "execute ucd_ascii ?repo (lit ''SELECT 1'') []
      = (execute_query (orders_pool (lit ''public'') (lit ''public'')) (lit ''SELECT 1''),
          [lit ''SELECT 1''],
          [IsSafeQuery (lit ''SELECT 1''), RepoExecuteQuery (lit ''SELECT 1'')])"
    using validate_before_execute[of ucd_ascii "lit ''SELECT 1''" ?repo "[]",
      THEN conjunct2, THEN mp, OF c]
    by (simp only: r fst_conv snd_conv)
  show ?thesis
  proof (intro conjI)
    show "\<not> is_safe_query ucd_ascii (lit ''DROP TABLE users'')" by (fact a)
    show "is_safe_query ucd_ascii (lit ''SELECT 1'')" by (fact c)
  qed (fact b b' d)+
qed

section \<open>Pagination\<close>

lemma ceil_div:
  fixes a b :: int
  assumes "0 < b"
  shows "\<lceil>real_of_int a / real_of_int b\<rceil> = (a + b - 1) div b"
proof (rule ceiling_unique)
  define x where "x = a + b - 1"
  define q where "q = x div b"
  have eq: "x = b * q + x mod b" by (simp add: q_def)
  have lo: "0 \<le> x mod b" and hi: "x mod b < b" using assms by simp_all
  have bq: "b * q \<le> a + b - 1" "a \<le> b * q"
    using eq lo hi by (simp_all add: x_def)
  have rb: "0 < real_of_int b" using assms by simp
  have "real_of_int a \<le> real_of_int (b * q)" using bq(2) by (simp only: of_int_le_iff)
  then have "real_of_int a \<le> real_of_int q * real_of_int b" by (simp add: mult.commute)
  then show "real_of_int a / real_of_int b \<le> real_of_int ((a + b - 1) div b)"
    using rb by (simp add: pos_divide_le_eq q_def x_def)
  have "b * q - b < a" using bq(1) by simp
  then have "real_of_int (b * q - b) < real_of_int a" by (simp only: of_int_less_iff)
  then have "(real_of_int q - 1) * real_of_int b < real_of_int a"
    by (simp add: algebra_simps)
  then show "real_of_int ((a + b - 1) div b) - 1 < real_of_int a / real_of_int b"
    using rb by (simp add: pos_less_divide_eq q_def x_def)
qed

text \<open>
  C4. For a Pagination with \<open>page \<ge> 1\<close>, \<open>1 \<le> page_size \<le> 100\<close> and
  \<open>total_count \<ge> 0\<close>, \<open>total_pages\<close> returns the ceiling of the real quotient
  \<open>total_count / page_size\<close> and \<open>offset\<close> is \<open>(page - 1) * page_size\<close>; with
  \<open>total_count = 0\<close> there are 0 pages and the offset is unchanged.
\<close>

theorem pagination_derived_fields:
  assumes "1 \<le> page p" and "1 \<le> page_size p" and "page_size p \<le> 100" and "0 \<le> total_count p"
  shows "total_pages p = Inr \<lceil>real_of_int (total_count p) / real_of_int (page_size p)\<rceil>
       \<and> offset p = (page p - 1) * page_size p
       \<and> (total_count p = 0 \<longrightarrow> total_pages p = Inr 0)"
proof -
  from assms(2) have pos: "0 < page_size p" by simp
  then have tp: "total_pages p = Inr ((total_count p + page_size p - 1) div page_size p)"
    by (simp add: total_pages_def)
  have z: "total_count p = 0 \<Longrightarrow> (total_count p + page_size p - 1) div page_size p = 0"
    using pos by (simp add: div_pos_pos_trivial)
  show ?thesis
    using tp z by (simp add: ceil_div[OF pos] offset_def)
qed

theorem pagination_derived_fields_witness:
  "total_pages \<lparr>page = 3, page_size = 10, total_count = 25\<rparr> = Inr 3
   \<and> offset \<lparr>page = 3, page_size = 10, total_count = 25\<rparr> = 20
   \<and> total_pages \<lparr>page = 3, page_size = 10, total_count = 0\<rparr> = Inr 0
   \<and> offset \<lparr>page = 3, page_size = 10, total_count = 0\<rparr> = 20"
proof -
  have a: "total_pages \<lparr>page = 3, page_size = 10, total_count = 25\<rparr>
             = Inr \<lceil>real_of_int 25 / real_of_int 10\<rceil>
           \<and> offset \<lparr>page = 3, page_size = 10, total_count = 25\<rparr> = (3 - 1) * 10"
    using pagination_derived_fields[of "\<lparr>page = 3, page_size = 10, total_count = 25\<rparr>"]
    by simp
  have c: "\<lceil>real_of_int 25 / real_of_int 10\<rceil> = (3::int)"
    by (rule ceiling_unique) simp_all
  have b: "total_pages \<lparr>page = 3, page_size = 10, total_count = 0\<rparr> = Inr 0
           \<and> offset \<lparr>page = 3, page_size = 10, total_count = 0\<rparr> = (3 - 1) * 10"
    using pagination_derived_fields[of "\<lparr>page = 3, page_size = 10, total_count = 0\<rparr>"]
    by simp
  from a b c show ?thesis by simp
qed

text \<open>
  C10. Construction validates nothing: \<open>total_pages\<close> raises \<open>ZeroDivisionError\<close> for
  every Pagination with \<open>page_size = 0\<close> (and for no other); under the documented bounds,
  with a non-negative count, \<open>total_pages\<close> is defined and both derived values are
  non-negative; outside them they can be negative (page 0 gives offset -10, page size
  -10 gives -2 pages).
\<close>

theorem pagination_unvalidated:
  "(page_size p = 0 \<longrightarrow> total_pages p = Inl ZeroDivisionError)
   \<and> (page_size p \<noteq> 0 \<longrightarrow> (\<exists>n. total_pages p = Inr n))
   \<and> (1 \<le> page p \<and> 1 \<le> page_size p \<and> page_size p \<le> 100 \<and> 0 \<le> total_count p \<longrightarrow>
        (\<exists>n\<ge>0. total_pages p = Inr n) \<and> 0 \<le> offset p)
   \<and> 0 > offset \<lparr>page = 0, page_size = 10, total_count = 25\<rparr>
   \<and> total_pages \<lparr>page = 1, page_size = - 10, total_count = 25\<rparr> = Inr (- 2)"
proof (intro conjI impI)
  assume "page_size p = 0"
  then show "total_pages p = Inl ZeroDivisionError" by (simp add: total_pages_def)
next
  assume "page_size p \<noteq> 0"
  then show "\<exists>n. total_pages p = Inr n" by (simp add: total_pages_def)
next
  assume h: "1 \<le> page p \<and> 1 \<le> page_size p \<and> page_size p \<le> 100 \<and> 0 \<le> total_count p"
  then have "0 \<le> (total_count p + page_size p - 1) div page_size p"
    by (simp add: pos_imp_zdiv_nonneg_iff)
  with h show "\<exists>n\<ge>0. total_pages p = Inr n" by (simp add: total_pages_def)
  from h show "0 \<le> offset p" by (simp add: offset_def)
next
  show "0 > offset \<lparr>page = 0, page_size = 10, total_count = 25\<rparr>" by (simp add: offset_def)
  show "total_pages \<lparr>page = 1, page_size = - 10, total_count = 25\<rparr> = Inr (- 2)"
    by (simp add: total_pages_def)
qed

theorem pagination_unvalidated_witness:
  "total_pages \<lparr>page = 1, page_size = 0, total_count = 25\<rparr> = Inl ZeroDivisionError
   \<and> total_pages \<lparr>page = 2, page_size = 5, total_count = 12\<rparr> = Inr 3
   \<and> 0 \<le> offset \<lparr>page = 2, page_size = 5, total_count = 12\<rparr>"
proof -
  have a: "total_pages \<lparr>page = 1, page_size = 0, total_count = 25\<rparr> = Inl ZeroDivisionError"
    using pagination_unvalidated[of "\<lparr>page = 1, page_size = 0, total_count = 25\<rparr>"] by simp
  have "(\<exists>n\<ge>0. total_pages \<lparr>page = 2, page_size = 5, total_count = 12\<rparr> = Inr n)
        \<and> 0 \<le> offset \<lparr>page = 2, page_size = 5, total_count = 12\<rparr>"
    using pagination_unvalidated[of "\<lparr>page = 2, page_size = 5, total_count = 12\<rparr>"] by simp
  moreover have "total_pages \<lparr>page = 2, page_size = 5, total_count = 12\<rparr> = Inr 3"
    by (simp add: total_pages_def)
  ultimately show ?thesis using a by simp
qed

section \<open>The repository: free queries\<close>

lemma execute_query_rows:
  assumes "acquire p = Inr conn" and "fetch conn q = Inr rs"
  shows "execute_query p q =
           Inr (case rs of [] \<Rightarrow> \<lparr>columns = [], rows = [], row_count = 0\<rparr>
                | row0 # others \<Rightarrow> \<lparr>columns = map fst row0, rows = map (map snd) rs,
                                     row_count = int (length rs)\<rparr>)"
  using assms by (simp add: execute_query_def split: list.splits)

text \<open>
  C6. When the pool yields a connection and the driver answers the query with the
  records \<open>rs\<close> (all of one result set, so with the same fields), \<open>execute_query\<close>
  succeeds: without records the result is exactly empty columns, empty rows and count 0;
  otherwise the count is the number of records, the columns are the field names of the
  first record in field order, and the rows are the records' value lists in order, each
  as long as the column list.
\<close>

theorem query_result_shape:
  assumes "acquire p = Inr conn" and "fetch conn q = Inr rs" and "same_fields rs"
  shows "\<exists>res. execute_query p q = Inr res
           \<and> (rs = [] \<longrightarrow> res = \<lparr>columns = [], rows = [], row_count = 0\<rparr>)
           \<and> (rs \<noteq> [] \<longrightarrow>
                row_count res = int (length rs)
              \<and> columns res = map fst (hd rs)
              \<and> rows res = map (map snd) rs
              \<and> (\<forall>r\<in>set (rows res). length r = length (columns res)))"
proof (cases rs)
  case Nil
  with execute_query_rows[OF assms(1,2)] show ?thesis by simp
next
  case (Cons row0 others)
  define res where
    "res = \<lparr>columns = map fst row0, rows = map (map snd) rs, row_count = int (length rs)\<rparr>"
  have e: "execute_query p q = Inr res"
    using execute_query_rows[OF assms(1,2)] by (simp only: Cons res_def list.case)
  have h: "hd rs = row0" and ne: "rs \<noteq> []" using Cons by simp_all
  have "\<forall>r\<in>set rs. length r = length row0"
    using assms(3) h by (simp add: same_fields_def list_all_iff)
  then have len: "\<forall>r\<in>set (rows res). length r = length (columns res)"
    by (simp add: res_def)
  have "row_count res = int (length rs)" "columns res = map fst (hd rs)"
    "rows res = map (map snd) rs"
    by (simp_all add: res_def h)
  with e ne len show ?thesis by blast
qed

theorem query_result_shape_witness:
  "acquire (orders_pool (lit ''public'') (lit ''public''))
     = Inr (orders_connection (lit ''public''))
   \<and> fetch (orders_connection (lit ''public'')) (lit ''SELECT n FROM t'')
       = Inr [[(lit ''n'', 1)], [(lit ''n'', 2)]]
   \<and> same_fields [[(lit ''n'', 1::int)], [(lit ''n'', 2)]]
   \<and> execute_query (orders_pool (lit ''public'') (lit ''public'')) (lit ''SELECT n FROM t'')
       = Inr \<lparr>columns = [lit ''n''], rows = [[1], [2]], row_count = 2\<rparr>"
proof -
  let ?p = "orders_pool (lit ''public'') (lit ''public'')"
  let ?c = "orders_connection (lit ''public'')"
  let ?rs = "[[(lit ''n'', 1::int)], [(lit ''n'', 2)]]"
  have a: "acquire ?p = Inr ?c" by (simp add: acquire_def orders_pool_def)
  have f: "fetch ?c (lit ''SELECT n FROM t'') = Inr ?rs" by (simp add: orders_connection_def)
  have s: "same_fields ?rs" by (simp add: same_fields_def)
  from query_result_shape[OF a f s] obtain res where
    r: "execute_query ?p (lit ''SELECT n FROM t'') = Inr res"
    and k: "?rs \<noteq> [] \<longrightarrow>
                row_count res = int (length ?rs)
              \<and> columns res = map fst (hd ?rs)
              \<and> rows res = map (map snd) ?rs
              \<and> (\<forall>r\<in>set (rows res). length r = length (columns res))"
    by (elim exE conjE)
  from k have c: "columns res = map fst (hd ?rs)" and n: "row_count res = int (length ?rs)"
    and v: "rows res = map (map snd) ?rs"
    by simp_all
  from c n v have "res = \<lparr>columns = [lit ''n''], rows = [[1], [2]], row_count = 2\<rparr>"
    by simp
  with r have e: "execute_query ?p (lit ''SELECT n FROM t'')
      = Inr \<lparr>columns = [lit ''n''], rows = [[1], [2]], row_count = 2\<rparr>"
    by (simp only:)
  show ?thesis
    by (intro conjI) (rule a f s e)+
qed

lemma execute_query_fault:
  assumes "fault_raised p q f"
  shows "execute_query p q = Inl (reraise f)"
  using assms by (auto simp: fault_raised_def execute_query_def split: sum.splits)

lemma execute_query_error_has_fault:
  assumes "execute_query p q = Inl e"
  shows "\<exists>f. fault_raised p q f \<and> e = reraise f"
  using assms
  by (auto simp: fault_raised_def execute_query_def split: sum.splits list.splits)

text \<open>
  C8, as stated, fails: \<open>except asyncpg.PostgresError\<close> catches that class alone. An
  \<open>asyncpg.InterfaceError\<close> raised by \<open>fetch\<close> (the connection is closed) is a fault of the
  driver raised inside \<open>execute_query\<close>; it leaves \<open>execute_query\<close> as it is, and no
  \<open>QueryExecutionError\<close> is raised.
\<close>

theorem interface_error_not_converted_counterexample:
  "fault_raised (failing_pool (OtherFault (lit ''connection is closed''))) (lit ''SELECT 1'')
     (OtherFault (lit ''connection is closed''))
   \<and> execute_query (failing_pool (OtherFault (lit ''connection is closed''))) (lit ''SELECT 1'')
       = Inl (Fault (OtherFault (lit ''connection is closed'')))
   \<and> (\<forall>x. execute_query (failing_pool (OtherFault (lit ''connection is closed''))) (lit ''SELECT 1'')
           \<noteq> Inl (QueryExecutionError x))"
  by (simp add: fault_raised_def acquire_def failing_pool_def execute_query_def reraise_def)

text \<open>
  C8, amended. Whatever fault is raised inside \<open>execute_query\<close>, while the connection is
  acquired or by \<open>fetch\<close>: when it is an \<open>asyncpg.PostgresError\<close> with message \<open>m\<close> (a
  syntax error, a missing relation, a permission denial, a type error), \<open>execute_query\<close>
  raises the one kind \<open>QueryExecutionError\<close> whose message is the fixed prefix followed by
  \<open>m\<close> unchanged; when it is any other fault, \<open>execute_query\<close> raises that fault itself,
  unconverted; and \<open>execute_query\<close> raises a \<open>QueryExecutionError\<close> in the first case only.
\<close>

theorem postgres_error_reraised:
  assumes "fault_raised p q f"
  shows "(\<forall>m. f = PostgresError m \<longrightarrow>
            execute_query p q = Inl (QueryExecutionError (lit ''Query execution failed: '' @ m)))
       \<and> ((\<forall>m. f \<noteq> PostgresError m) \<longrightarrow> execute_query p q = Inl (Fault f))
       \<and> (\<forall>x. (execute_query p q = Inl (QueryExecutionError x))
              = (\<exists>m. f = PostgresError m \<and> x = lit ''Query execution failed: '' @ m))"
proof -
  note e = execute_query_fault[OF assms]
  show ?thesis
    by (cases f) (simp_all add: e reraise_def eq_commute)
qed

theorem postgres_error_reraised_witness:
  "fault_raised (failing_pool (PostgresError (lit ''relation nope does not exist'')))
     (lit ''SELECT * FROM nope'') (PostgresError (lit ''relation nope does not exist''))
   \<and> execute_query (failing_pool (PostgresError (lit ''relation nope does not exist'')))
       (lit ''SELECT * FROM nope'')
     = Inl (QueryExecutionError
              (lit ''Query execution failed: '' @ lit ''relation nope does not exist''))
   \<and> fault_raised unconnected_pool (lit ''SELECT 1'')
       (RuntimeError (lit ''Connection pool not initialized''))
   \<and> execute_query unconnected_pool (lit ''SELECT 1'')
     = Inl (Fault (RuntimeError (lit ''Connection pool not initialized'')))"
proof -
  let ?m = "lit ''relation nope does not exist''"
  let ?r = "RuntimeError (lit ''Connection pool not initialized'')"
  have h1: "fault_raised (failing_pool (PostgresError ?m)) (lit ''SELECT * FROM nope'') (PostgresError ?m)"
    by (simp add: fault_raised_def acquire_def failing_pool_def)
  have h2: "fault_raised unconnected_pool (lit ''SELECT 1'') ?r"
    by (simp add: fault_raised_def acquire_def unconnected_pool_def)
  have n: "\<forall>m. ?r \<noteq> PostgresError m" by simp
  have a: "execute_query (failing_pool (PostgresError ?m)) (lit ''SELECT * FROM nope'')
     = Inl (QueryExecutionError (lit ''Query execution failed: '' @ ?m))"
    by (rule postgres_error_reraised[OF h1, THEN conjunct1, THEN spec, THEN mp]) (rule refl)
  have b: "execute_query unconnected_pool (lit ''SELECT 1'') = Inl (Fault ?r)"
    by (rule postgres_error_reraised[OF h2, THEN conjunct2, THEN conjunct1, THEN mp]) (rule n)
  show ?thesis
    by (intro conjI) (rule h1 a h2 b)+
qed


section \<open>The repository: schema introspection\<close>

lemmas schema_ev = get_table_schema_def acquire_def orders_pool_def orders_connection_def
  run_statement_def exists_query_def comment_query_def columns_query_def indexes_query_def
  indexes_join_def group_attributes_def orders_catalog_def in_constraint_def
  relation_in_schema_def definition_order_columns_def


lemma exists_query_iff:
  "exists_query cat name = relation_in_schema cat (lit ''public'') name"
  by (auto simp: exists_query_def relation_in_schema_def list_ex_iff)

lemma get_table_schema_absent:
  assumes "acquire p = Inr conn" and "statement_fault conn (ExistsQuery name) = None"
    and "\<not> exists_query (catalog conn) name"
  shows "get_table_schema p name =
           (Inl (TableNotFoundError (lit ''Table '' @ [39] @ name @ [39] @ lit '' not found'')),
            [ExistsQuery name])"
  using assms by (simp add: get_table_schema_def run_statement_def)

lemma get_table_schema_present:
  assumes "acquire p = Inr conn" and "statement_fault conn (ExistsQuery name) = None"
    and "exists_query (catalog conn) name"
  shows "fst (get_table_schema p name) \<noteq> Inl (TableNotFoundError m)"
  using assms
  by (simp add: get_table_schema_def run_statement_def split: sum.splits option.splits)

lemma get_table_schema_trace:
  "snd (get_table_schema p name) = [] \<or> hd (snd (get_table_schema p name)) = ExistsQuery name"
  by (simp add: get_table_schema_def run_statement_def split: sum.splits option.splits)

lemma get_table_schema_later_statements:
  assumes "st \<in> set (snd (get_table_schema p name))" and "st \<noteq> ExistsQuery name"
  shows "\<exists>conn. acquire p = Inr conn \<and> statement_fault conn (ExistsQuery name) = None
           \<and> exists_query (catalog conn) name"
  using assms
  by (auto simp: get_table_schema_def run_statement_def split: sum.splits option.splits if_splits)

text \<open>
  The order of the statements in \<open>get_table_schema\<close>: the existence query is the first
  statement sent; when it answers that the relation is absent from the schema
  \<open>public\<close>, the result is \<open>TableNotFoundError\<close> and no other statement was sent; any
  other statement is sent only after it answered that the relation is present, and then
  the result is not \<open>TableNotFoundError\<close>.
\<close>

lemma existence_checked_first:
  assumes "acquire p = Inr conn" and "statement_fault conn (ExistsQuery name) = None"
  shows "(\<not> relation_in_schema (catalog conn) (lit ''public'') name \<longrightarrow>
            get_table_schema p name =
              (Inl (TableNotFoundError (lit ''Table '' @ [39] @ name @ [39] @ lit '' not found'')),
               [ExistsQuery name]))
       \<and> (relation_in_schema (catalog conn) (lit ''public'') name \<longrightarrow>
            (\<forall>m. fst (get_table_schema p name) \<noteq> Inl (TableNotFoundError m)))
       \<and> hd (snd (get_table_schema p name)) = ExistsQuery name"
proof (intro conjI impI allI)
  assume "\<not> relation_in_schema (catalog conn) (lit ''public'') name"
  then show "get_table_schema p name =
              (Inl (TableNotFoundError (lit ''Table '' @ [39] @ name @ [39] @ lit '' not found'')),
               [ExistsQuery name])"
    using get_table_schema_absent[OF assms] by (simp add: exists_query_iff)
next
  fix m assume "relation_in_schema (catalog conn) (lit ''public'') name"
  then show "fst (get_table_schema p name) \<noteq> Inl (TableNotFoundError m)"
    using get_table_schema_present[OF assms] by (simp add: exists_query_iff)
next
  show "hd (snd (get_table_schema p name)) = ExistsQuery name"
    using assms
    by (simp add: get_table_schema_def run_statement_def split: sum.splits option.splits)
qed

text \<open>
  C5: \<open>get_table_schema\<close> is said to test the existence of the named relation in the
  configured schema. \<open>Settings.db_schema\<close> is documented as the schema name to use for
  queries, but the existence query names the schema \<open>public\<close> literally. With the setting
  \<open>sales\<close> and a catalog whose only relation \<open>orders\<close> lives in the schema \<open>sales\<close>, the
  relation exists in the configured schema and \<open>get_table_schema\<close> still answers
  \<open>TableNotFoundError\<close>, after the existence query alone.
\<close>

theorem configured_schema_ignored:
  "db_schema (pool_settings (orders_pool (lit ''sales'') (lit ''sales''))) = lit ''sales''
   \<and> relation_in_schema (orders_catalog (lit ''sales'')) (lit ''sales'') (lit ''orders'')
   \<and> get_table_schema (orders_pool (lit ''sales'') (lit ''sales'')) (lit ''orders'')
       = (Inl (TableNotFoundError (lit ''Table '' @ [39] @ lit ''orders'' @ [39] @ lit '' not found'')),
          [ExistsQuery (lit ''orders'')])"
  by (simp add: schema_ev lit_def)

lemma get_table_schema_Inr:
  assumes "fst (get_table_schema p name) = Inr (cols, idxs, comment)"
  shows "\<exists>conn. acquire p = Inr conn
           \<and> idxs = map (\<lambda>(iname, cs, uniq, prim).
                           \<lparr>index_name = iname, index_columns = cs,
                            is_unique = uniq, is_primary = prim\<rparr>)
                      (indexes_query (catalog conn) name)"
  using assms
  by (auto simp: get_table_schema_def run_statement_def split: sum.splits option.splits if_splits)

lemma indexes_query_keys:
  "map (\<lambda>(iname, cs, uniq, prim). (iname, uniq, prim)) (indexes_query cat name)
     = remdups (map fst (indexes_join cat name))"
  by (simp add: indexes_query_def Let_def split_def comp_def)

lemma indexes_query_columns:
  assumes "(iname, cs, uniq, prim) \<in> set (indexes_query cat name)"
  shows "cs = map attname (sort_key attnum (group_attributes (indexes_join cat name) (iname, uniq, prim)))
       \<and> (iname, uniq, prim) \<in> fst ` set (indexes_join cat name)"
  using assms by (auto simp: indexes_query_def Let_def)

lemma group_attributes_nonempty:
  assumes "k \<in> fst ` set joined"
  shows "group_attributes joined k \<noteq> []"
  using assms by (induction joined) (auto simp: group_attributes_def)

lemma indexes_join_memE:
  assumes "(k, ix, a) \<in> set (indexes_join cat name)"
  obtains t i n where "ix \<in> set (pg_index cat)" and "a \<in> set (pg_attribute cat)"
    and "attnum a \<in> set (indkey ix)" and "t \<in> set (pg_class cat)" and "i \<in> set (pg_class cat)"
    and "n \<in> set (pg_namespace cat)" and "oid t = indrelid ix" and "oid i = indexrelid ix"
    and "relnamespace t = nsp_oid n" and "attrelid a = oid t" and "nspname n = lit ''public''"
    and "relname t = name" and "k = (relname i, indisunique ix, indisprimary ix)"
  using assms by (auto simp: indexes_join_def split: if_splits)

lemma distinct_map_eq:
  assumes "distinct (map f xs)" and "x \<in> set xs" and "y \<in> set xs" and "f x = f y"
  shows "x = y"
  using assms by (auto simp: distinct_map dest: inj_onD)

lemma name_determines_key:
  assumes c: "catalog_constraints cat"
    and r: "(k, ix, a) \<in> set (indexes_join cat name)"
    and r': "(k', ix', a') \<in> set (indexes_join cat name)"
    and nm: "fst k = fst k'"
  shows "k = k'"
proof -
  from r obtain t i n where ix: "ix \<in> set (pg_index cat)"
    and t: "t \<in> set (pg_class cat)" and i: "i \<in> set (pg_class cat)"
    and n: "n \<in> set (pg_namespace cat)" and ot: "oid t = indrelid ix"
    and oi: "oid i = indexrelid ix" and tn: "relnamespace t = nsp_oid n"
    and pn: "nspname n = lit ''public''"
    and k: "k = (relname i, indisunique ix, indisprimary ix)"
    by (rule indexes_join_memE)
  from r' obtain t' i' n' where ix': "ix' \<in> set (pg_index cat)"
    and t': "t' \<in> set (pg_class cat)" and i': "i' \<in> set (pg_class cat)"
    and n': "n' \<in> set (pg_namespace cat)" and ot': "oid t' = indrelid ix'"
    and oi': "oid i' = indexrelid ix'" and tn': "relnamespace t' = nsp_oid n'"
    and pn': "nspname n' = lit ''public''"
    and k': "k' = (relname i', indisunique ix', indisprimary ix')"
    by (rule indexes_join_memE)
  from c have d1: "distinct (map (\<lambda>c. (relname c, relnamespace c)) (pg_class cat))"
    and d2: "distinct (map nspname (pg_namespace cat))"
    and d3: "distinct (map indexrelid (pg_index cat))"
    and same: "\<And>ix i t. ix \<in> set (pg_index cat) \<Longrightarrow> i \<in> set (pg_class cat)
                 \<Longrightarrow> t \<in> set (pg_class cat) \<Longrightarrow> oid i = indexrelid ix
                 \<Longrightarrow> oid t = indrelid ix \<Longrightarrow> relnamespace i = relnamespace t"
    by (simp_all add: catalog_constraints_def list_all_iff)
  from pn pn' have "nspname n = nspname n'" by (simp only:)
  with d2 n n' have "n = n'" by (rule distinct_map_eq)
  with tn tn' have "relnamespace t = relnamespace t'" by simp
  moreover have "relnamespace i = relnamespace t" by (rule same[OF ix i t oi ot])
  moreover have "relnamespace i' = relnamespace t'" by (rule same[OF ix' i' t' oi' ot'])
  ultimately have "relnamespace i = relnamespace i'" by simp
  moreover from nm k k' have "relname i = relname i'" by simp
  ultimately have "(\<lambda>c. (relname c, relnamespace c)) i = (\<lambda>c. (relname c, relnamespace c)) i'"
    by simp
  with d1 i i' have "i = i'" by (rule distinct_map_eq)
  with oi oi' have "indexrelid ix = indexrelid ix'" by simp
  with d3 ix ix' have "ix = ix'" by (rule distinct_map_eq)
  with \<open>i = i'\<close> k k' show ?thesis by simp
qed

lemma group_attributes_in_named_index:
  assumes "a \<in> set (group_attributes (indexes_join cat name) (iname, uniq, prim))"
  shows "a \<in> set (pg_attribute cat)
       \<and> (\<exists>ix\<in>set (pg_index cat). \<exists>i\<in>set (pg_class cat).
             oid i = indexrelid ix \<and> relname i = iname
           \<and> indisunique ix = uniq \<and> indisprimary ix = prim
           \<and> attrelid a = indrelid ix \<and> attnum a \<in> set (indkey ix))"
proof -
  from assms obtain ix where "((iname, uniq, prim), ix, a) \<in> set (indexes_join cat name)"
    by (auto simp: group_attributes_def)
  then obtain t i n where "ix \<in> set (pg_index cat)" and "a \<in> set (pg_attribute cat)"
    and "attnum a \<in> set (indkey ix)" and "t \<in> set (pg_class cat)"
    and "i \<in> set (pg_class cat)" and "n \<in> set (pg_namespace cat)"
    and "oid t = indrelid ix" and "oid i = indexrelid ix"
    and "relnamespace t = nsp_oid n" and "attrelid a = oid t"
    and "nspname n = lit ''public''" and "relname t = name"
    and "(iname, uniq, prim) = (relname i, indisunique ix, indisprimary ix)"
    by (rule indexes_join_memE)
  then have "a \<in> set (pg_attribute cat)" and "ix \<in> set (pg_index cat)"
    and "i \<in> set (pg_class cat)"
    and "oid i = indexrelid ix \<and> relname i = iname
           \<and> indisunique ix = uniq \<and> indisprimary ix = prim
           \<and> attrelid a = indrelid ix \<and> attnum a \<in> set (indkey ix)"
    by simp_all
  then show ?thesis by (intro conjI bexI[of _ ix] bexI[of _ i]) simp_all
qed

lemma join_names:
  "(\<lambda>r. fst (fst r)) ` set joined = fst ` fst ` set joined"
  by (simp add: image_image)

lemmas keyed_ev = get_table_schema_def acquire_def keyed_orders_pool_def keyed_orders_catalog_def
  run_statement_def exists_query_def comment_query_def columns_query_def indexes_query_def
  indexes_join_def group_attributes_def orders_catalog_def in_constraint_def

text \<open>
  C7, as stated, fails: the index \<open>orders_idx\<close> is defined on \<open>(customer, id)\<close>, its
  \<open>indkey\<close> being \<open>[2, 1]\<close>, so the columns in the order of the index definition are
  \<open>[customer, id]\<close>; \<open>get_table_schema\<close> returns \<open>[id, customer]\<close>, the order of the columns
  in the table.
\<close>

theorem index_definition_order_counterexample:
  "fst (get_table_schema (orders_pool (lit ''public'') (lit ''public'')) (lit ''orders''))
     = Inr (columns_query (orders_catalog (lit ''public'')) (lit ''orders''),
            [\<lparr>index_name = lit ''orders_idx'', index_columns = [lit ''id'', lit ''customer''],
              is_unique = False, is_primary = False\<rparr>],
            None)
   \<and> pg_index (orders_catalog (lit ''public''))
       = [\<lparr>indexrelid = 2, indrelid = 1, indkey = [2, 1], indisunique = False, indisprimary = False\<rparr>]
   \<and> definition_order_columns (orders_catalog (lit ''public''))
       \<lparr>indexrelid = 2, indrelid = 1, indkey = [2, 1], indisunique = False, indisprimary = False\<rparr>
     = [lit ''customer'', lit ''id'']
   \<and> [lit ''id'', lit ''customer''] \<noteq> [lit ''customer'', lit ''id'']"
  by (simp add: schema_ev lit_def)

text \<open>
  C7, amended. Whenever \<open>get_table_schema\<close> returns, the indexes are grouped by index
  name: the index names returned are exactly the names of the indexes the query joins
  to the table; there is exactly one \<open>IndexInfo\<close> for each combination of index name,
  \<open>is_unique\<close> and \<open>is_primary\<close> among them, hence, under the constraints PostgreSQL
  keeps on its catalog, exactly one per index name. Within each \<open>IndexInfo\<close> the column
  list holds the names of the attributes of its group, which is not empty and consists of
  attributes of the table whose number is in the key of an index of that name, ordered
  by \<open>attnum\<close> ascending, the ordinal position of the column in the table, and not by the
  position of the column in the index definition.
\<close>

theorem indexes_by_name_columns_by_attnum:
  assumes "fst (get_table_schema p name) = Inr (cols, idxs, comment)"
  shows "\<exists>conn. acquire p = Inr conn
     \<and> set (map index_name idxs) = (\<lambda>r. fst (fst r)) ` set (indexes_join (catalog conn) name)
     \<and> (catalog_constraints (catalog conn) \<longrightarrow> distinct (map index_name idxs))
     \<and> distinct (map (\<lambda>ii. (index_name ii, is_unique ii, is_primary ii)) idxs)
     \<and> set (map (\<lambda>ii. (index_name ii, is_unique ii, is_primary ii)) idxs)
         = fst ` set (indexes_join (catalog conn) name)
     \<and> (\<forall>ii\<in>set idxs. \<exists>atts.
           atts = sort_key attnum (group_attributes (indexes_join (catalog conn) name)
                                     (index_name ii, is_unique ii, is_primary ii))
         \<and> index_columns ii = map attname atts
         \<and> sorted (map attnum atts)
         \<and> atts \<noteq> []
         \<and> (\<forall>a\<in>set atts. a \<in> set (pg_attribute (catalog conn))
               \<and> (\<exists>ix\<in>set (pg_index (catalog conn)). \<exists>i\<in>set (pg_class (catalog conn)).
                     oid i = indexrelid ix \<and> relname i = index_name ii
                   \<and> indisunique ix = is_unique ii \<and> indisprimary ix = is_primary ii
                   \<and> attrelid a = indrelid ix \<and> attnum a \<in> set (indkey ix))))"
proof -
  from get_table_schema_Inr[OF assms] obtain conn where conn: "acquire p = Inr conn"
    and idxs: "idxs = map (\<lambda>(iname, cs, uniq, prim).
                           \<lparr>index_name = iname, index_columns = cs,
                            is_unique = uniq, is_primary = prim\<rparr>)
                      (indexes_query (catalog conn) name)"
    by blast
  let ?cat = "catalog conn"
  let ?joined = "indexes_join ?cat name"
  let ?keys = "remdups (map fst ?joined)"
  have "map (\<lambda>ii. (index_name ii, is_unique ii, is_primary ii)) idxs
      = map (\<lambda>(iname, cs, uniq, prim). (iname, uniq, prim)) (indexes_query ?cat name)"
    by (simp add: idxs split_def comp_def)
  also have "\<dots> = ?keys"
    by (rule indexes_query_keys)
  finally have keys: "map (\<lambda>ii. (index_name ii, is_unique ii, is_primary ii)) idxs = ?keys" .
  have d: "distinct (map (\<lambda>ii. (index_name ii, is_unique ii, is_primary ii)) idxs)"
    by (simp only: keys distinct_remdups)
  have ks: "set (map (\<lambda>ii. (index_name ii, is_unique ii, is_primary ii)) idxs) = fst ` set ?joined"
    by (simp only: keys set_remdups set_map)
  have "map index_name idxs = map fst (map (\<lambda>ii. (index_name ii, is_unique ii, is_primary ii)) idxs)"
    by (simp add: comp_def)
  then have names: "map index_name idxs = map fst ?keys"
    by (simp only: keys)
  have ns: "set (map index_name idxs) = (\<lambda>r. fst (fst r)) ` set ?joined"
    by (simp only: names set_map set_remdups join_names)
  have dn: "distinct (map index_name idxs)" if c: "catalog_constraints ?cat"
  proof -
    have "inj_on fst (set ?keys)"
    proof (rule inj_onI)
      fix k k' assume "k \<in> set ?keys" and "k' \<in> set ?keys" and nm: "fst k = fst k'"
      then obtain ix a ix' a' where "(k, ix, a) \<in> set ?joined" and "(k', ix', a') \<in> set ?joined"
        by auto
      with c show "k = k'" using nm by (rule name_determines_key)
    qed
    then show ?thesis
      by (simp only: names distinct_map distinct_remdups simp_thms)
  qed
  have each: "\<exists>atts.
           atts = sort_key attnum (group_attributes ?joined
                                     (index_name ii, is_unique ii, is_primary ii))
         \<and> index_columns ii = map attname atts
         \<and> sorted (map attnum atts)
         \<and> atts \<noteq> []
         \<and> (\<forall>a\<in>set atts. a \<in> set (pg_attribute ?cat)
               \<and> (\<exists>ix\<in>set (pg_index ?cat). \<exists>i\<in>set (pg_class ?cat).
                     oid i = indexrelid ix \<and> relname i = index_name ii
                   \<and> indisunique ix = is_unique ii \<and> indisprimary ix = is_primary ii
                   \<and> attrelid a = indrelid ix \<and> attnum a \<in> set (indkey ix)))"
    if "ii \<in> set idxs" for ii
  proof -
    from that idxs obtain iname cs uniq prim where
      row: "(iname, cs, uniq, prim) \<in> set (indexes_query ?cat name)"
      and ii: "ii = \<lparr>index_name = iname, index_columns = cs, is_unique = uniq, is_primary = prim\<rparr>"
      by auto
    let ?k = "(iname, uniq, prim)"
    let ?atts = "sort_key attnum (group_attributes ?joined ?k)"
    from indexes_query_columns[OF row] have cs: "cs = map attname ?atts"
      and k: "?k \<in> fst ` set ?joined" by simp_all
    have ne: "?atts \<noteq> []"
      using group_attributes_nonempty[OF k] by (metis length_0_conv length_sort)
    have st: "sorted (map attnum ?atts)" by (rule sorted_sort_key)
    have mem: "\<forall>a\<in>set ?atts. a \<in> set (pg_attribute ?cat)
               \<and> (\<exists>ix\<in>set (pg_index ?cat). \<exists>i\<in>set (pg_class ?cat).
                     oid i = indexrelid ix \<and> relname i = iname
                   \<and> indisunique ix = uniq \<and> indisprimary ix = prim
                   \<and> attrelid a = indrelid ix \<and> attnum a \<in> set (indkey ix))"
    proof (intro ballI)
      fix a assume "a \<in> set ?atts"
      then have "a \<in> set (group_attributes ?joined ?k)" by (simp only: set_sort)
      then show "a \<in> set (pg_attribute ?cat)
               \<and> (\<exists>ix\<in>set (pg_index ?cat). \<exists>i\<in>set (pg_class ?cat).
                     oid i = indexrelid ix \<and> relname i = iname
                   \<and> indisunique ix = uniq \<and> indisprimary ix = prim
                   \<and> attrelid a = indrelid ix \<and> attnum a \<in> set (indkey ix))"
        by (rule group_attributes_in_named_index)
    qed
    show ?thesis
      using cs ne st mem by (simp add: ii)
  qed
  show ?thesis
  proof (intro exI[of _ conn] conjI impI ballI)
    show "acquire p = Inr conn" by (rule conn)
    show "set (map index_name idxs) = (\<lambda>r. fst (fst r)) ` set ?joined" by (rule ns)
    show "distinct (map index_name idxs)" if "catalog_constraints ?cat"
      using that by (rule dn)
    show "distinct (map (\<lambda>ii. (index_name ii, is_unique ii, is_primary ii)) idxs)" by (rule d)
    show "set (map (\<lambda>ii. (index_name ii, is_unique ii, is_primary ii)) idxs) = fst ` set ?joined"
      by (rule ks)
  next
    fix ii assume "ii \<in> set idxs"
    then show "\<exists>atts.
           atts = sort_key attnum (group_attributes ?joined
                                     (index_name ii, is_unique ii, is_primary ii))
         \<and> index_columns ii = map attname atts
         \<and> sorted (map attnum atts)
         \<and> atts \<noteq> []
         \<and> (\<forall>a\<in>set atts. a \<in> set (pg_attribute ?cat)
               \<and> (\<exists>ix\<in>set (pg_index ?cat). \<exists>i\<in>set (pg_class ?cat).
                     oid i = indexrelid ix \<and> relname i = index_name ii
                   \<and> indisunique ix = is_unique ii \<and> indisprimary ix = is_primary ii
                   \<and> attrelid a = indrelid ix \<and> attnum a \<in> set (indkey ix)))"
      by (rule each)
  qed
qed

theorem indexes_by_name_columns_by_attnum_witness:
  "fst (get_table_schema keyed_orders_pool (lit ''orders''))
     = Inr (columns_query keyed_orders_catalog (lit ''orders''),
            [\<lparr>index_name = lit ''orders_idx'', index_columns = [lit ''id'', lit ''customer''],
              is_unique = False, is_primary = False\<rparr>,
             \<lparr>index_name = lit ''orders_pkey'', index_columns = [lit ''id''],
              is_unique = True, is_primary = True\<rparr>],
            None)
   \<and> catalog_constraints keyed_orders_catalog
   \<and> fst ` set (indexes_join keyed_orders_catalog (lit ''orders''))
       = {(lit ''orders_idx'', False, False), (lit ''orders_pkey'', True, True)}
   \<and> distinct [lit ''orders_idx'', lit ''orders_pkey'']
   \<and> [lit ''id'', lit ''customer'']
       = map attname (sort_key attnum (group_attributes
           (indexes_join keyed_orders_catalog (lit ''orders'')) (lit ''orders_idx'', False, False)))
   \<and> [lit ''id'']
       = map attname (sort_key attnum (group_attributes
           (indexes_join keyed_orders_catalog (lit ''orders'')) (lit ''orders_pkey'', True, True)))
   \<and> map attnum (sort_key attnum (group_attributes
           (indexes_join keyed_orders_catalog (lit ''orders'')) (lit ''orders_idx'', False, False)))
       = [1, 2]"
proof -
  let ?ii1 = "\<lparr>index_name = lit ''orders_idx'', index_columns = [lit ''id'', lit ''customer''],
              is_unique = False, is_primary = False\<rparr>"
  let ?ii2 = "\<lparr>index_name = lit ''orders_pkey'', index_columns = [lit ''id''],
              is_unique = True, is_primary = True\<rparr>"
  let ?J = "indexes_join keyed_orders_catalog (lit ''orders'')"
  have e: "fst (get_table_schema keyed_orders_pool (lit ''orders''))
     = Inr (columns_query keyed_orders_catalog (lit ''orders''), [?ii1, ?ii2], None)"
    by (simp add: keyed_ev lit_def)
  have c: "catalog_constraints keyed_orders_catalog"
    by (simp add: catalog_constraints_def keyed_orders_catalog_def orders_catalog_def lit_def)
  from indexes_by_name_columns_by_attnum[OF e] obtain conn where
    acq: "acquire keyed_orders_pool = Inr conn"
    and "set (map index_name [?ii1, ?ii2])
           = (\<lambda>r. fst (fst r)) ` set (indexes_join (catalog conn) (lit ''orders''))"
    and dn: "catalog_constraints (catalog conn) \<longrightarrow> distinct (map index_name [?ii1, ?ii2])"
    and "distinct (map (\<lambda>ii. (index_name ii, is_unique ii, is_primary ii)) [?ii1, ?ii2])"
    and ks: "set (map (\<lambda>ii. (index_name ii, is_unique ii, is_primary ii)) [?ii1, ?ii2])
         = fst ` set (indexes_join (catalog conn) (lit ''orders''))"
    and each: "\<forall>ii\<in>set [?ii1, ?ii2]. \<exists>atts.
           atts = sort_key attnum (group_attributes (indexes_join (catalog conn) (lit ''orders''))
                                     (index_name ii, is_unique ii, is_primary ii))
         \<and> index_columns ii = map attname atts
         \<and> sorted (map attnum atts)
         \<and> atts \<noteq> []
         \<and> (\<forall>a\<in>set atts. a \<in> set (pg_attribute (catalog conn))
               \<and> (\<exists>ix\<in>set (pg_index (catalog conn)). \<exists>i\<in>set (pg_class (catalog conn)).
                     oid i = indexrelid ix \<and> relname i = index_name ii
                   \<and> indisunique ix = is_unique ii \<and> indisprimary ix = is_primary ii
                   \<and> attrelid a = indrelid ix \<and> attnum a \<in> set (indkey ix)))"
    by (elim exE conjE)
  from acq have cc: "catalog conn = keyed_orders_catalog"
    by (auto simp: acquire_def keyed_orders_pool_def)
  from ks[symmetric] have k: "fst ` set ?J
       = {(lit ''orders_idx'', False, False), (lit ''orders_pkey'', True, True)}"
    by (simp add: cc)
  from dn c have n: "distinct [lit ''orders_idx'', lit ''orders_pkey'']"
    by (simp add: cc)
  from each have c1: "[lit ''id'', lit ''customer'']
       = map attname (sort_key attnum (group_attributes ?J (lit ''orders_idx'', False, False)))"
    and c2: "[lit ''id'']
       = map attname (sort_key attnum (group_attributes ?J (lit ''orders_pkey'', True, True)))"
    by (simp_all add: cc)
  have o: "map attnum (sort_key attnum (group_attributes ?J (lit ''orders_idx'', False, False)))
       = [1, 2]"
    by (simp add: keyed_ev lit_def)
  show ?thesis
    by (intro conjI) (rule e c k n c1 c2 o)+
qed

end
